theory Spec2Isabelle
  imports Main "HOL-Library.Sublist"
begin

section \<open>Text\<close>

text \<open>
  A Python \<open>str\<close> is a sequence of Unicode code points, so text is a list of code
  points; \<open>ascii\<close> turns an ASCII literal into such a list.
\<close>

type_synonym ustring = "nat list"

definition ascii :: "string \<Rightarrow> ustring" where
  "ascii cs = map of_char cs"

text \<open>The two non-ASCII characters of the source: U+20B1 (peso sign) and U+2013 (en dash).\<close>

definition peso :: nat where
  "peso = 8369"

definition en_dash :: nat where
  "en_dash = 8211"

definition hyphen :: nat where
  "hyphen = 45"

definition dot :: nat where
  "dot = 46"

definition comma :: nat where
  "comma = 44"

text \<open>
  The characters \<open>str.strip()\<close> removes and the regular expression class \<open>\s\<close>
  matches on \<open>str\<close> patterns: both are CPython's \<open>Py_UNICODE_ISSPACE\<close>.
\<close>

definition is_space :: "nat \<Rightarrow> bool" where
  "is_space c \<longleftrightarrow>
     (9 \<le> c \<and> c \<le> 13) \<or> (28 \<le> c \<and> c \<le> 32) \<or> c = 133 \<or> c = 160 \<or> c = 5760 \<or>
     (8192 \<le> c \<and> c \<le> 8202) \<or> c = 8232 \<or> c = 8233 \<or> c = 8239 \<or> c = 8287 \<or> c = 12288"

text \<open>\<open>[0-9]\<close> in a regular expression: the ten ASCII digits only.\<close>

definition is_digit :: "nat \<Rightarrow> bool" where
  "is_digit c \<longleftrightarrow> 48 \<le> c \<and> c \<le> 57"

text \<open>The class \<open>[0-9.]\<close>, whose complement \<open>re.sub(r"[^0-9.]", "", part)\<close> deletes.\<close>

definition is_numeric :: "nat \<Rightarrow> bool" where
  "is_numeric c \<longleftrightarrow> is_digit c \<or> c = dot"

text \<open>The class of the split pattern: en dash or hyphen.\<close>

definition is_dash :: "nat \<Rightarrow> bool" where
  "is_dash c \<longleftrightarrow> c = en_dash \<or> c = hyphen"

text \<open>\<open>s.strip()\<close>: leading and trailing whitespace removed.\<close>

definition strip :: "ustring \<Rightarrow> ustring" where
  "strip s = rev (dropWhile is_space (rev (dropWhile is_space s)))"

text \<open>
  \<open>s.lower()\<close>, as far as the test \<open>'request' in s.lower()\<close> can see it: the ASCII
  capitals are mapped to their small letters and every other code point is kept. Python
  lowercases further code points, but none of them to (or to a sequence containing) one
  of the letters r, e, q, u, s, t, so the occurrences of \<open>request\<close> are the same.
\<close>

definition lower_cp :: "nat \<Rightarrow> nat" where
  "lower_cp c = (if 65 \<le> c \<and> c \<le> 90 then c + 32 else c)"

definition lower :: "ustring \<Rightarrow> ustring" where
  "lower s = map lower_cp s"

text \<open>\<open>'request' in s.lower()\<close>: a contiguous occurrence.\<close>

definition has_request :: "ustring \<Rightarrow> bool" where
  "has_request s \<longleftrightarrow> sublist (ascii ''request'') (lower s)"

text \<open>\<open>sep.join(xs)\<close>.\<close>

fun join :: "ustring \<Rightarrow> ustring list \<Rightarrow> ustring" where
  "join sep [] = []"
| "join sep [x] = x"
| "join sep (x # y # ys) = x @ sep @ join sep (y # ys)"

text \<open>
  \<open>re.split\<close>. The pattern is a greedy whitespace run, one dash
  and another greedy whitespace run; the scan goes left to right and a match starts at the
  first position from which the text reads whitespace and then a dash. \<open>acc\<close> holds the
  current piece, reversed. Every match has at least the dash, so no piece is cut by an
  empty match.
\<close>

function re_split_from :: "ustring \<Rightarrow> ustring \<Rightarrow> ustring list" where
  "re_split_from acc [] = [rev acc]"
| "re_split_from acc (c # cs) =
     (case dropWhile is_space (c # cs) of
        [] \<Rightarrow> re_split_from (c # acc) cs
      | d # after \<Rightarrow>
          if is_dash d then rev acc # re_split_from [] (dropWhile is_space after)
          else re_split_from (c # acc) cs)"
  by pat_completeness auto
termination
proof (relation "measure (\<lambda>(acc, s). length s)")
  show "wf (measure (\<lambda>(acc, s). length s))"
    by simp
next
  fix acc :: ustring and c cs
  show "((c # acc, cs), (acc, c # cs)) \<in> measure (\<lambda>(acc, s). length s)"
    by simp
next
  fix acc :: ustring and c cs d after
  assume split: "dropWhile is_space (c # cs) = d # after"
  have "length (dropWhile is_space after) \<le> length after"
    by (rule length_dropWhile_le)
  moreover have "length (d # after) \<le> length (c # cs)"
    unfolding split [symmetric] by (rule length_dropWhile_le)
  ultimately show "(([], dropWhile is_space after), (acc, c # cs)) \<in> measure (\<lambda>(acc, s). length s)"
    by simp
next
  fix acc :: ustring and c cs d after
  show "((c # acc, cs), (acc, c # cs)) \<in> measure (\<lambda>(acc, s). length s)"
    by simp
qed

definition re_split :: "ustring \<Rightarrow> ustring list" where
  "re_split s = re_split_from [] s"

section \<open>Numbers\<close>

datatype error = ValueError | IndexError | AttributeError | SystemExit nat

text \<open>
  \<open>int(num_raw)\<close> on a non-empty string of ASCII digits. CPython refuses a conversion
  between \<open>int\<close> and \<open>str\<close> of more than \<open>sys.int_max_str_digits\<close> digit characters
  (leading zeros counted) with a \<open>ValueError\<close>; the limit is a setting of the
  interpreter (4300 unless changed, 0 for none, absent before 3.11), so it is the
  parameter \<open>lim\<close> here.
\<close>

definition digit_val :: "nat \<Rightarrow> nat" where
  "digit_val c = c - 48"

definition int_of_digits :: "ustring \<Rightarrow> nat" where
  "int_of_digits ds = foldl (\<lambda>n c. 10 * n + digit_val c) 0 ds"

definition py_int :: "nat \<Rightarrow> ustring \<Rightarrow> error + nat" where
  "py_int lim ds =
     (if lim \<noteq> 0 \<and> lim < length ds then Inl ValueError else Inr (int_of_digits ds))"

text \<open>\<open>str(n)\<close> for a natural number: its decimal digits, most significant first.\<close>

fun decimal :: "nat \<Rightarrow> ustring" where
  "decimal n = (if n < 10 then [48 + n] else decimal (n div 10) @ [48 + n mod 10])"

declare decimal.simps [simp del]

text \<open>
  The \<open>,\<close> option of the format specification: a comma before every group of three
  digits, counted from the right. \<open>group3_rev\<close> works on the reversed digits.
\<close>

fun group3_rev :: "ustring \<Rightarrow> ustring" where
  "group3_rev (a # b # c # d # ds) = a # b # c # comma # group3_rev (d # ds)"
| "group3_rev ds = ds"

definition group3 :: "ustring \<Rightarrow> ustring" where
  "group3 ds = rev (group3_rev (rev ds))"

text \<open>\<open>f"{value:,}"\<close> for an \<open>int\<close> that is not negative.\<close>

definition format_int :: "nat \<Rightarrow> ustring" where
  "format_int n = group3 (decimal n)"

text \<open>
  \<open>float(num_raw)\<close> on a string of ASCII digits and dots that has a dot succeeds exactly
  when the dot is the only one and some digit stands beside it (\<open>"1."\<close>, \<open>".5"\<close>,
  \<open>"1.5"\<close>); otherwise it raises \<open>ValueError\<close>. It never overflows: a literal too
  large reads as infinity.
\<close>

definition float_literal :: "ustring \<Rightarrow> bool" where
  "float_literal ds \<longleftrightarrow> length (filter (\<lambda>c. c = dot) ds) = 1 \<and> (\<exists>c \<in> set ds. is_digit c)"

text \<open>
  The body of the \<open>try\<close> for one piece, \<open>Inl\<close> when it raises. The binary
  floating-point value of a literal and its rendering \<open>f"{value:,.2f}"\<close> are not
  modelled: \<open>fmt_float\<close>, a parameter, stands for the text Python prints for the
  literal it is given.
\<close>

definition format_number :: "nat \<Rightarrow> (ustring \<Rightarrow> ustring) \<Rightarrow> ustring \<Rightarrow> error + ustring" where
  "format_number lim fmt_float num_raw =
     (if dot \<in> set num_raw then
        (if float_literal num_raw then Inr (peso # fmt_float num_raw) else Inl ValueError)
      else
        (case py_int lim num_raw of
           Inl e \<Rightarrow> Inl e
         | Inr v \<Rightarrow> Inr (peso # format_int v)))"

section \<open>The price formatter\<close>

text \<open>
  A value the formatter or an extractor meets: \<open>None\<close>, a \<open>str\<close>, or any other object
  (a number, a boolean or a date of a spreadsheet cell), given by its truth value and by
  the text \<open>str()\<close> makes of it.
\<close>

datatype cell = CNone | CStr ustring | COther bool ustring

fun py_str :: "cell \<Rightarrow> ustring" where
  "py_str CNone = ascii ''None''"
| "py_str (CStr s) = s"
| "py_str (COther t s) = s"

fun truthy :: "cell \<Rightarrow> bool" where
  "truthy CNone = False"
| "truthy (CStr s) = (s \<noteq> [])"
| "truthy (COther t s) = t"

definition range_sep :: ustring where
  "range_sep = [32, en_dash, 32]"

text \<open>
  The loop over the pieces: \<open>s\<close> is the stripped text, \<open>done\<close> is
  \<open>formatted_parts\<close>. A piece without a digit or dot, and a piece whose conversion
  raises, return \<open>s\<close> at once.
\<close>

fun format_parts ::
  "nat \<Rightarrow> (ustring \<Rightarrow> ustring) \<Rightarrow> ustring \<Rightarrow> ustring list \<Rightarrow> ustring list \<Rightarrow> ustring" where
  "format_parts lim fmt_float s [] done =
     (if length done = 1 then done ! 0 else join range_sep done)"
| "format_parts lim fmt_float s (part # parts) done =
     (let num_raw = filter is_numeric part in
      if num_raw = [] then s
      else
        (case format_number lim fmt_float num_raw of
           Inl e \<Rightarrow> s
         | Inr formatted \<Rightarrow> format_parts lim fmt_float s parts (done @ [formatted])))"

definition format_price_range :: "nat \<Rightarrow> (ustring \<Rightarrow> ustring) \<Rightarrow> cell \<Rightarrow> ustring" where
  "format_price_range lim fmt_float raw =
     (if raw = CNone then []
      else
        (let s = strip (py_str raw) in
         if s = [] then []
         else if has_request s then ascii ''Price on Request''
         else format_parts lim fmt_float s (re_split s) []))"

section \<open>Row extraction\<close>

record model_record =
  model :: ustring
  variant :: ustring
  priceRange :: ustring

text \<open>
  \<open>x.strip()\<close> as a method call: \<open>None\<close>, and the numbers, booleans and dates of a
  cell, have no such method.
\<close>

fun py_strip :: "cell \<Rightarrow> error + ustring" where
  "py_strip (CStr s) = Inr (strip s)"
| "py_strip CNone = Inl AttributeError"
| "py_strip (COther t s) = Inl AttributeError"

subsection \<open>Delimited text\<close>

text \<open>
  A row as \<open>csv.DictReader\<close> yields it: a dictionary from the header's field names to
  the row's fields, where a field the row is too short for is \<open>None\<close>. The reader
  never yields \<open>None\<close> for the row itself, so \<open>row is None\<close> is false.
\<close>

type_synonym csv_row = "ustring \<rightharpoonup> cell"

text \<open>\<open>row.get(key, default)\<close>; \<open>row.get(key)\<close> is \<open>dict_get row key CNone\<close>.\<close>

definition dict_get :: "csv_row \<Rightarrow> ustring \<Rightarrow> cell \<Rightarrow> cell" where
  "dict_get row key dflt = (case row key of None \<Rightarrow> dflt | Some v \<Rightarrow> v)"

definition Model :: ustring where
  "Model = ascii ''Model''"

definition Variant :: ustring where
  "Variant = ascii ''Variant''"

definition Price_Range :: ustring where
  "Price_Range = ascii ''2026 Price Range (SRP)''"

text \<open>
  The loop \<open>for row in reader\<close> of \<open>csv_to_json\<close>; \<open>models\<close> is the list built so
  far. The dictionary of a record evaluates its entries in order: model, variant,
  priceRange.
\<close>

fun csv_rows ::
  "nat \<Rightarrow> (ustring \<Rightarrow> ustring) \<Rightarrow> csv_row list \<Rightarrow> model_record list \<Rightarrow> error + model_record list" where
  "csv_rows lim fmt_float [] models = Inr models"
| "csv_rows lim fmt_float (row # rows) models =
     (if \<not> truthy (dict_get row Model CNone) then Inr models
      else
        (let raw_price = dict_get row Price_Range (CStr []) in
         case py_strip (dict_get row Model (CStr [])) of
           Inl e \<Rightarrow> Inl e
         | Inr m \<Rightarrow>
             (case py_strip (dict_get row Variant (CStr [])) of
                Inl e \<Rightarrow> Inl e
              | Inr v \<Rightarrow>
                  csv_rows lim fmt_float rows
                    (models @ [\<lparr>model = m, variant = v,
                                priceRange = format_price_range lim fmt_float raw_price\<rparr>]))))"

subsection \<open>Spreadsheet\<close>

text \<open>
  A row as \<open>ws.iter_rows(min_row=2, values_only=True)\<close> yields it: the tuple of the
  cells' values. \<open>row[i]\<close> raises \<open>IndexError\<close> beyond the tuple.
\<close>

type_synonym sheet_row = "cell list"

definition py_index :: "'a list \<Rightarrow> nat \<Rightarrow> error + 'a" where
  "py_index xs i = (if i < length xs then Inr (xs ! i) else Inl IndexError)"

text \<open>\<open>x if x else ""\<close>.\<close>

definition or_empty :: "cell \<Rightarrow> cell" where
  "or_empty x = (if truthy x then x else CStr [])"

fun excel_rows ::
  "nat \<Rightarrow> (ustring \<Rightarrow> ustring) \<Rightarrow> sheet_row list \<Rightarrow> model_record list \<Rightarrow> error + model_record list" where
  "excel_rows lim fmt_float [] models = Inr models"
| "excel_rows lim fmt_float (row # rows) models =
     (case py_index row 0 of
        Inl e \<Rightarrow> Inl e
      | Inr c0 \<Rightarrow>
          if c0 = CNone then Inr models
          else
            (case py_index row 1 of
               Inl e \<Rightarrow> Inl e
             | Inr c1 \<Rightarrow>
                 (case py_index row 2 of
                    Inl e \<Rightarrow> Inl e
                  | Inr c2 \<Rightarrow>
                      (let model = or_empty c0; variant = or_empty c1; price_range = or_empty c2 in
                       if truthy model then
                         excel_rows lim fmt_float rows
                           (models @ [\<lparr>model = strip (py_str model), variant = strip (py_str variant),
                                       priceRange = format_price_range lim fmt_float price_range\<rparr>])
                       else excel_rows lim fmt_float rows models))))"

section \<open>Categories and the two conversions\<close>

record category_info =
  sheet_name :: ustring
  csv_name :: ustring
  cat_id :: ustring
  cat_name :: ustring
  subtitle :: ustring
  icon :: ustring
  description :: ustring

text \<open>
  \<open>CATEGORY_MAPPING\<close>, in the order of its entries (a dictionary is iterated in
  insertion order); \<open>sheet_name\<close> is an entry's key.
\<close>

definition CATEGORY_MAPPING :: "category_info list" where
  "CATEGORY_MAPPING =
     [\<lparr>sheet_name = ascii ''Passenger Vehicles'',
       csv_name = ascii ''Passenger Vehicles.csv'',
       cat_id = ascii ''passenger'',
       cat_name = ascii ''Passenger Vehicles'',
       subtitle = ascii ''Personal & Family'',
       icon = [128104, 8205, 128105, 8205, 128103, 8205, 128102],
       description = ascii ''Personal & Family vehicles for everyday comfort''\<rparr>,
      \<lparr>sheet_name = ascii ''Light Commercial'',
       csv_name = ascii ''Light Commercial.csv'',
       cat_id = ascii ''light-commercial'',
       cat_name = ascii ''Light Commercial Vehicles'',
       subtitle = ascii ''Small Business'',
       icon = [127978],
       description = ascii ''Small Business solutions for efficient operations''\<rparr>,
      \<lparr>sheet_name = ascii ''Medium Duty Trucks'',
       csv_name = ascii ''Medium Duty Trucks.csv'',
       cat_id = ascii ''medium-duty'',
       cat_name = ascii ''Light to Medium Duty Trucks'',
       subtitle = ascii ''N-Series & F-Series'',
       icon = [128667],
       description = ascii ''N-Series & F-Series for versatile hauling''\<rparr>,
      \<lparr>sheet_name = ascii ''Heavy Duty GIGA'',
       csv_name = ascii ''Heavy Duty GIGA.csv'',
       cat_id = ascii ''heavy-duty'',
       cat_name = ascii ''Heavy Duty & Special Purpose'',
       subtitle = ascii ''GIGA'',
       icon = [128170],
       description = ascii ''GIGA series for demanding operations''\<rparr>]"

record category =
  ident :: ustring
  name :: ustring
  subtitle' :: ustring
  icon' :: ustring
  description' :: ustring
  models :: "model_record list"

text \<open>
  The dictionary \<open>category\<close> both conversions build; its keys \<open>id\<close>, \<open>subtitle\<close>,
  \<open>icon\<close> and \<open>description\<close> are the fields \<open>ident\<close>, \<open>subtitle'\<close>, \<open>icon'\<close> and
  \<open>description'\<close> of the record above.
\<close>

definition make_category :: "category_info \<Rightarrow> model_record list \<Rightarrow> category" where
  "make_category info ms =
     \<lparr>ident = cat_id info, name = cat_name info, subtitle' = subtitle info,
      icon' = icon info, description' = description info, models = ms\<rparr>"

text \<open>
  What a run leaves behind: the lines printed, in order, and the document written to
  \<open>data/vehicles.json\<close> (its \<open>categories\<close> array), if any. A printed line is kept by
  its kind and its variable parts: the warning for a missing file (with the file's name;
  the source prints it behind \<open>templates/\<close>) or sheet, the line of success, the total,
  and one line for each category with its name and the number of its models.
\<close>

datatype message =
  Warning_file_not_found ustring
| Warning_sheet_not_found ustring
| Generated
| Total_categories nat
| Category_models ustring nat

record world =
  printed :: "message list"
  vehicles_json :: "category list option"

definition save_json :: "category list \<Rightarrow> world \<Rightarrow> world" where
  "save_json categories w =
     \<lparr>printed = printed w @ [Generated, Total_categories (length categories)] @
                 map (\<lambda>cat. Category_models (name cat) (length (models cat))) categories,
      vehicles_json = Some categories\<rparr>"

text \<open>
  The loop over \<open>CATEGORY_MAPPING\<close> of \<open>csv_to_json\<close>. \<open>files\<close> is the \<open>templates\<close>
  directory: the rows of each file that exists, by file name.
\<close>

fun csv_categories ::
  "nat \<Rightarrow> (ustring \<Rightarrow> ustring) \<Rightarrow> (ustring \<rightharpoonup> csv_row list) \<Rightarrow> category_info list \<Rightarrow>
   message list \<times> category list \<Rightarrow> error + message list \<times> category list" where
  "csv_categories lim fmt_float files [] (out, categories) = Inr (out, categories)"
| "csv_categories lim fmt_float files (info # infos) (out, categories) =
     (case files (csv_name info) of
        None \<Rightarrow>
          csv_categories lim fmt_float files infos
            (out @ [Warning_file_not_found (csv_name info)], categories)
      | Some rows \<Rightarrow>
          (case csv_rows lim fmt_float rows [] of
             Inl e \<Rightarrow> Inl e
           | Inr ms \<Rightarrow>
               csv_categories lim fmt_float files infos
                 (out, categories @ [make_category info ms])))"

text \<open>\<open>csv_to_json\<close>; \<open>None\<close> for the directory when \<open>templates\<close> does not exist.\<close>

definition csv_to_json ::
  "nat \<Rightarrow> (ustring \<Rightarrow> ustring) \<Rightarrow> (ustring \<rightharpoonup> csv_row list) option \<Rightarrow> error + world" where
  "csv_to_json lim fmt_float templates =
     (case templates of
        None \<Rightarrow> Inl (SystemExit 1)
      | Some files \<Rightarrow>
          (case csv_categories lim fmt_float files CATEGORY_MAPPING ([], []) of
             Inl e \<Rightarrow> Inl e
           | Inr (out, categories) \<Rightarrow>
               Inr (save_json categories \<lparr>printed = out, vehicles_json = None\<rparr>)))"

text \<open>
  The loop over \<open>CATEGORY_MAPPING\<close> of \<open>excel_to_json\<close>. \<open>wb\<close> is the workbook: the
  data rows (from row 2 on) of each sheet it has, by sheet name.
\<close>

fun excel_categories ::
  "nat \<Rightarrow> (ustring \<Rightarrow> ustring) \<Rightarrow> (ustring \<rightharpoonup> sheet_row list) \<Rightarrow> category_info list \<Rightarrow>
   message list \<times> category list \<Rightarrow> error + message list \<times> category list" where
  "excel_categories lim fmt_float wb [] (out, categories) = Inr (out, categories)"
| "excel_categories lim fmt_float wb (info # infos) (out, categories) =
     (case wb (sheet_name info) of
        None \<Rightarrow>
          excel_categories lim fmt_float wb infos
            (out @ [Warning_sheet_not_found (sheet_name info)], categories)
      | Some rows \<Rightarrow>
          (case excel_rows lim fmt_float rows [] of
             Inl e \<Rightarrow> Inl e
           | Inr ms \<Rightarrow>
               excel_categories lim fmt_float wb infos
                 (out, categories @ [make_category info ms])))"

text \<open>\<open>excel_to_json\<close>; \<open>None\<close> for the workbook when the file does not exist.\<close>

definition excel_to_json ::
  "nat \<Rightarrow> (ustring \<Rightarrow> ustring) \<Rightarrow> (ustring \<rightharpoonup> sheet_row list) option \<Rightarrow> error + world" where
  "excel_to_json lim fmt_float excel_file =
     (case excel_file of
        None \<Rightarrow> Inl (SystemExit 1)
      | Some wb \<Rightarrow>
          (case excel_categories lim fmt_float wb CATEGORY_MAPPING ([], []) of
             Inl e \<Rightarrow> Inl e
           | Inr (out, categories) \<Rightarrow>
               Inr (save_json categories \<lparr>printed = out, vehicles_json = None\<rparr>)))"


section \<open>Notions for the statements\<close>

text \<open>
  What one round of the formatter's loop makes of a piece: \<open>None\<close> in the two cases
  in which the loop gives up (no digit or dot in the piece, or the conversion raises),
  else the formatted number.
\<close>

definition formatted :: "nat \<Rightarrow> (ustring \<Rightarrow> ustring) \<Rightarrow> ustring \<Rightarrow> ustring option" where
  "formatted lim fmt_float part =
     (let num_raw = filter is_numeric part in
      if num_raw = [] then None
      else (case format_number lim fmt_float num_raw of Inl e \<Rightarrow> None | Inr f \<Rightarrow> Some f))"


text \<open>
  The 0-based index of the first row that \<open>blank\<close> holds of, or the number of rows if
  there is none.
\<close>

fun first_blank_index :: "('r \<Rightarrow> bool) \<Rightarrow> 'r list \<Rightarrow> nat" where
  "first_blank_index blank [] = 0"
| "first_blank_index blank (r # rs) = (if blank r then 0 else Suc (first_blank_index blank rs))"

text \<open>
  A word spells \<open>request\<close> in some casing: letter by letter it is the small letter or its
  capital (32 below it).
\<close>

definition same_letter :: "nat \<Rightarrow> nat \<Rightarrow> bool" where
  "same_letter c l \<longleftrightarrow> c = l \<or> c + 32 = l"

definition spells_request :: "ustring \<Rightarrow> bool" where
  "spells_request w \<longleftrightarrow> list_all2 same_letter w (ascii ''request'')"

text \<open>The tests the two loops make on a row, and the rows on which they do not raise.\<close>

definition csv_model_blank :: "csv_row \<Rightarrow> bool" where
  "csv_model_blank row \<longleftrightarrow> \<not> truthy (dict_get row Model CNone)"

definition first_cell_none :: "sheet_row \<Rightarrow> bool" where
  "first_cell_none row \<longleftrightarrow> py_index row 0 = Inr CNone"

definition first_cell_truthy :: "sheet_row \<Rightarrow> bool" where
  "first_cell_truthy row \<longleftrightarrow> (case py_index row 0 of Inl e \<Rightarrow> False | Inr c \<Rightarrow> truthy c)"

definition is_str :: "cell \<Rightarrow> bool" where
  "is_str c \<longleftrightarrow> (case c of CStr s \<Rightarrow> True | _ \<Rightarrow> False)"

definition csv_row_ok :: "csv_row \<Rightarrow> bool" where
  "csv_row_ok row \<longleftrightarrow>
     csv_model_blank row \<or>
     (is_str (dict_get row Model (CStr [])) \<and> is_str (dict_get row Variant (CStr [])))"






text \<open>Rows for the examples: three text fields.\<close>

definition csv_line :: "string \<Rightarrow> string \<Rightarrow> string \<Rightarrow> csv_row" where
  "csv_line m v p = [Model \<mapsto> CStr (ascii m), Variant \<mapsto> CStr (ascii v), Price_Range \<mapsto> CStr (ascii p)]"

definition sheet_line :: "string \<Rightarrow> string \<Rightarrow> string \<Rightarrow> sheet_row" where
  "sheet_line m v p = [CStr (ascii m), CStr (ascii v), CStr (ascii p)]"

text \<open>
  A workbook and a \<open>templates\<close> directory for the examples: three of the four sources,
  Light Commercial missing.
\<close>

definition example_workbook :: "ustring \<rightharpoonup> sheet_row list" where
  "example_workbook =
     [ascii ''Passenger Vehicles'' \<mapsto> [sheet_line ''D-MAX'' ''LS'' ''100''],
      ascii ''Medium Duty Trucks'' \<mapsto> [],
      ascii ''Heavy Duty GIGA'' \<mapsto> []]"

definition example_templates :: "ustring \<rightharpoonup> csv_row list" where
  "example_templates =
     [ascii ''Passenger Vehicles.csv'' \<mapsto> [csv_line ''D-MAX'' ''LS'' ''100''],
      ascii ''Medium Duty Trucks.csv'' \<mapsto> [],
      ascii ''Heavy Duty GIGA.csv'' \<mapsto> []]"

text \<open>
  A numeric price range, built from its pieces: segments, each a currency prefix and a run
  of digits, and between two segments a separator: whitespace, one dash, whitespace.
\<close>

type_synonym segment = "ustring \<times> ustring"

type_synonym separator = "ustring \<times> nat \<times> ustring"

text \<open>
  A character of a currency prefix (\<open>P\<close>, \<open>PHP\<close>, the peso sign): anything but a digit,
  a dot, a dash or whitespace.
\<close>

definition currency_char :: "nat \<Rightarrow> bool" where
  "currency_char c \<longleftrightarrow> \<not> is_numeric c \<and> \<not> is_dash c \<and> \<not> is_space c"

definition segment_ok :: "segment \<Rightarrow> bool" where
  "segment_ok seg \<longleftrightarrow>
     list_all currency_char (fst seg) \<and> snd seg \<noteq> [] \<and> list_all is_digit (snd seg)"

definition separator_ok :: "separator \<Rightarrow> bool" where
  "separator_ok sep \<longleftrightarrow>
     list_all is_space (fst sep) \<and> is_dash (fst (snd sep)) \<and> list_all is_space (snd (snd sep))"

definition segment_text :: "segment \<Rightarrow> ustring" where
  "segment_text seg = fst seg @ snd seg"

definition separator_text :: "separator \<Rightarrow> ustring" where
  "separator_text sep = fst sep @ fst (snd sep) # snd (snd sep)"

fun price_text :: "segment \<Rightarrow> (separator \<times> segment) list \<Rightarrow> ustring" where
  "price_text seg [] = segment_text seg"
| "price_text seg ((sep, seg') # others) = segment_text seg @ separator_text sep @ price_text seg' others"

text \<open>
  The integer with comma thousands separators, in the words of the specification: below a
  thousand the number as it is, else the thousands, a comma and the last three digits.
\<close>

fun thousands :: "nat \<Rightarrow> ustring" where
  "thousands n =
     (if n < 1000 then decimal n
      else thousands (n div 1000) @
           [comma, 48 + n div 100 mod 10, 48 + n div 10 mod 10, 48 + n mod 10])"

declare thousands.simps [simp del]

text \<open>What the specification asks of a segment: the currency glyph, then that.\<close>

definition peso_amount :: "segment \<Rightarrow> ustring" where
  "peso_amount seg = peso # thousands (int_of_digits (snd seg))"

definition parts_ok :: "segment \<Rightarrow> (separator \<times> segment) list \<Rightarrow> bool" where
  "parts_ok seg others \<longleftrightarrow>
     segment_ok seg \<and> list_all (\<lambda>p. separator_ok (fst p) \<and> segment_ok (snd p)) others"

text \<open>The digits of a segment are no more than the interpreter converts (no limit when 0).\<close>

definition within_limit :: "nat \<Rightarrow> segment \<Rightarrow> bool" where
  "within_limit lim seg \<longleftrightarrow> lim = 0 \<or> length (snd seg) \<le> lim"

section \<open>Stripping\<close>

lemma strip_all_space:
  assumes "\<forall>c \<in> set s. is_space c"
  shows "strip s = []"
proof -
  from assms have blank: "dropWhile is_space s = []"
    by simp
  show ?thesis
    unfolding strip_def blank by simp
qed

lemma sublist_skip_foreign: "sublist n (w # xs) \<Longrightarrow> w \<notin> set n \<Longrightarrow> sublist n xs"
  by (cases n) (auto simp: sublist_Cons_right)

lemma sublist_dropWhile: "sublist n xs \<Longrightarrow> \<forall>x \<in> set n. \<not> P x \<Longrightarrow> sublist n (dropWhile P xs)"
proof (induction xs)
  case Nil
  then show ?case by simp
next
  case (Cons x xs)
  show ?case
  proof (cases "P x")
    case True
    with Cons.prems have "x \<notin> set n" by auto
    with Cons.prems have "sublist n xs" by (auto dest: sublist_skip_foreign)
    with Cons True show ?thesis by simp
  next
    case False
    with Cons.prems show ?thesis by simp
  qed
qed

lemma sublist_strip:
  assumes "sublist n s" and "\<forall>x \<in> set n. \<not> is_space x"
  shows "sublist n (strip s)"
proof -
  have "sublist n (dropWhile is_space s)"
    using assms by (rule sublist_dropWhile)
  then have "sublist (rev n) (rev (dropWhile is_space s))"
    by simp
  then have "sublist (rev n) (dropWhile is_space (rev (dropWhile is_space s)))"
    using assms(2) by (intro sublist_dropWhile) auto
  then show ?thesis
    unfolding strip_def by (simp add: sublist_rev_left)
qed

lemma lower_cp_space: "is_space (lower_cp c) \<longleftrightarrow> is_space c"
  by (auto simp: lower_cp_def is_space_def)

lemma lower_strip: "lower (strip s) = strip (lower s)"
  by (simp add: lower_def strip_def rev_map dropWhile_map comp_def lower_cp_space)

lemma request_no_space: "\<forall>x \<in> set (ascii ''request''). \<not> is_space x"
  by (simp add: ascii_def is_space_def)

lemma has_request_strip: "has_request s \<Longrightarrow> has_request (strip s)"
  unfolding has_request_def lower_strip
  by (rule sublist_strip) (simp_all add: request_no_space)

lemma has_request_nonempty: "has_request s \<Longrightarrow> s \<noteq> []"
  by (auto simp: has_request_def lower_def ascii_def)

section \<open>The request phrase\<close>

text \<open>
  The test \<open>'request' in s.lower()\<close> holds exactly of the texts in which the word stands
  in some casing.
\<close>

lemma lower_cp_small: "97 \<le> l \<Longrightarrow> l \<le> 122 \<Longrightarrow> lower_cp c = l \<longleftrightarrow> same_letter c l"
  by (auto simp: lower_cp_def same_letter_def)

lemma lower_small_letters:
  "\<forall>l \<in> set ls. 97 \<le> l \<and> l \<le> 122 \<Longrightarrow> map lower_cp w = ls \<longleftrightarrow> list_all2 same_letter w ls"
proof (induction ls arbitrary: w)
  case Nil
  then show ?case by simp
next
  case (Cons l ls)
  show ?case
  proof (cases w)
    case Nil
    then show ?thesis by simp
  next
    case (Cons c cs)
    with Cons.IH [of cs] Cons.prems show ?thesis
      by (simp add: lower_cp_small)
  qed
qed

lemma lower_spells_request: "lower w = ascii ''request'' \<longleftrightarrow> spells_request w"
  unfolding lower_def spells_request_def
  by (rule lower_small_letters) (simp add: ascii_def)

lemma has_request_iff_spelled:
  "has_request s \<longleftrightarrow> (\<exists>before w after. s = before @ w @ after \<and> spells_request w)"
proof
  assume "has_request s"
  then obtain ps ss where "ps @ ascii ''request'' @ ss = map lower_cp s"
    by (auto simp: has_request_def sublist_def lower_def)
  then obtain before rest where s: "s = before @ rest"
    and "ascii ''request'' @ ss = map lower_cp rest"
    unfolding append_eq_map_conv by blast
  then obtain w after where rest: "rest = w @ after" and "ascii ''request'' = map lower_cp w"
    unfolding append_eq_map_conv by blast
  then have "lower w = ascii ''request''"
    by (simp add: lower_def)
  then have "spells_request w"
    by (simp only: lower_spells_request)
  with s rest show "\<exists>before w after. s = before @ w @ after \<and> spells_request w"
    by blast
next
  assume "\<exists>before w after. s = before @ w @ after \<and> spells_request w"
  then obtain before w after where s: "s = before @ w @ after" and "spells_request w"
    by blast
  then have "lower w = ascii ''request''"
    by (simp add: lower_spells_request)
  then have "lower s = lower before @ ascii ''request'' @ lower after"
    by (simp add: s lower_def)
  then show "has_request s"
    by (simp add: has_request_def)
qed

lemma has_request_phrase:
  "has_request s \<Longrightarrow> format_price_range lim fmt_float (CStr s) = ascii ''Price on Request''"
  using has_request_strip [of s] has_request_nonempty [of "strip s"]
  by (simp add: format_price_range_def)

text \<open>
  C7. For every non-empty input string whose lowercased form contains the substring
  \<open>request\<close>, that is, in which \<open>request\<close> stands in any mix of capitals and small
  letters, \<open>format_price_range\<close> returns exactly \<open>Price on Request\<close>, whatever the
  casing of the input and whatever digits it also holds.
\<close>

theorem request_in_any_casing:
  "spells_request w \<Longrightarrow>
   format_price_range lim fmt_float (CStr (before @ w @ after)) = ascii ''Price on Request''"
proof -
  assume "spells_request w"
  then have "has_request (before @ w @ after)"
    unfolding has_request_iff_spelled by blast
  then show ?thesis
    by (rule has_request_phrase)
qed

theorem request_in_any_casing_witness:
  "spells_request (ascii ''REQUEST'') \<and>
   format_price_range 4300 (\<lambda>x. x) (CStr (ascii ''PRICE ON REQUEST 5'')) = ascii ''Price on Request'' \<and>
   spells_request (ascii ''reQuEst'') \<and>
   format_price_range 4300 (\<lambda>x. x) (CStr (ascii ''1070000 - on reQuEst'')) = ascii ''Price on Request'' \<and>
   format_price_range 4300 (\<lambda>x. x) (CStr (ascii ''Price on Request'')) = ascii ''Price on Request'' \<and>
   format_price_range 4300 (\<lambda>x. x) (CStr (ascii ''price ON request'')) = ascii ''Price on Request''"
proof -
  have upper: "spells_request (ascii ''REQUEST'')" and mixed: "spells_request (ascii ''reQuEst'')"
    and cap: "spells_request (ascii ''Request'')" and small: "spells_request (ascii ''request'')"
    by (simp_all add: spells_request_def same_letter_def ascii_def)
  from request_in_any_casing [OF upper, of 4300 "\<lambda>x. x" "ascii ''PRICE ON ''" "ascii '' 5''"]
    request_in_any_casing [OF mixed, of 4300 "\<lambda>x. x" "ascii ''1070000 - on ''" "[]"]
    request_in_any_casing [OF cap, of 4300 "\<lambda>x. x" "ascii ''Price on ''" "[]"]
    request_in_any_casing [OF small, of 4300 "\<lambda>x. x" "ascii ''price ON ''" "[]"]
    upper mixed
  show ?thesis
    by (simp add: ascii_def)
qed

section \<open>Whitespace-only input\<close>

text \<open>
  C10. For every input string that is non-empty but consists only of whitespace,
  \<open>format_price_range\<close> returns the empty string: the input is stripped before the
  emptiness check.
\<close>

theorem whitespace_only:
  "s \<noteq> [] \<Longrightarrow> \<forall>c \<in> set s. is_space c \<Longrightarrow> format_price_range lim fmt_float (CStr s) = []"
  by (simp add: format_price_range_def strip_all_space)

theorem whitespace_only_witness:
  "is_space 32 \<and> is_space 9 \<and> is_space 160 \<and>
   format_price_range 4300 (\<lambda>x. x) (CStr [32, 9, 160]) = []"
  using whitespace_only [of "[32, 9, 160]" 4300 "\<lambda>x. x"] by (simp add: is_space_def)

section \<open>The loop over the pieces\<close>

lemmas text_simps = ascii_def strip_def is_space_def has_request_def lower_def lower_cp_def
  sublist_code re_split_def is_dash_def en_dash_def hyphen_def is_numeric_def is_digit_def dot_def

lemmas number_simps = format_number_def float_literal_def py_int_def int_of_digits_def
  digit_val_def format_int_def group3_def decimal.simps comma_def peso_def range_sep_def

lemma join_single_or_many: "(if length xs = 1 then xs ! 0 else join sep xs) = join sep xs"
  by (induction sep xs rule: join.induct) simp_all

lemma format_parts_closed:
  "format_parts lim fmt_float s parts done =
     (if list_all (\<lambda>p. formatted lim fmt_float p \<noteq> None) parts
      then join range_sep (done @ map (\<lambda>p. the (formatted lim fmt_float p)) parts)
      else s)"
proof (induction parts arbitrary: "done")
  case Nil
  show ?case
    by (simp add: join_single_or_many del: One_nat_def)
next
  case (Cons p ps)
  have step: "format_parts lim fmt_float s (p # ps) done =
      (case formatted lim fmt_float p of
         None \<Rightarrow> s
       | Some f \<Rightarrow> format_parts lim fmt_float s ps (done @ [f]))"
    by (simp add: formatted_def Let_def split: sum.splits)
  show ?case
    unfolding step by (cases "formatted lim fmt_float p") (simp_all add: Cons.IH)
qed

text \<open>When a conversion raises: a malformed decimal, or an integer beyond the limit.\<close>

lemma format_number_fails:
  "format_number lim fmt_float n = Inl e \<longleftrightarrow>
     e = ValueError \<and> (if dot \<in> set n then \<not> float_literal n else lim \<noteq> 0 \<and> lim < length n)"
  by (auto simp: format_number_def py_int_def split: sum.splits)

section \<open>Fallback on text that is not a number\<close>

text \<open>
  C1, as stated: for every input string in which some dash-separated piece has no digit
  or dot, or in which the conversion of a piece fails, \<open>format_price_range\<close> returns the
  input string exactly as given. It does not: the text returned is the stripped input,
  and an input with \<open>request\<close> in it gets the request phrase.
\<close>

theorem fallback_not_original_counterexample:
  "list_all (\<lambda>p. filter is_numeric p = []) (re_split (ascii '' TBD '')) \<and>
   format_price_range 4300 (\<lambda>x. x) (CStr (ascii '' TBD '')) = ascii ''TBD'' \<and>
   ascii ''TBD'' \<noteq> ascii '' TBD '' \<and>
   list_all (\<lambda>p. filter is_numeric p = []) (re_split (ascii ''on request'')) \<and>
   format_price_range 4300 (\<lambda>x. x) (CStr (ascii ''on request'')) \<noteq> ascii ''on request''"
  by (simp add: format_price_range_def text_simps number_simps)

text \<open>
  C1, amended: for every input string whose stripped text does not contain \<open>request\<close>
  in any casing, and in which some dash-separated piece of the stripped text has no digit
  or dot, or the conversion of a piece fails, \<open>format_price_range\<close> returns the input
  string with its leading and trailing whitespace removed, and otherwise unchanged.
\<close>

theorem unparseable_returns_stripped:
  assumes "\<not> has_request (strip raw)"
    and "part \<in> set (re_split (strip raw))"
    and "(\<forall>c \<in> set part. \<not> is_numeric c) \<or>
         (\<exists>e. format_number lim fmt_float (filter is_numeric part) = Inl e)"
  shows "format_price_range lim fmt_float (CStr raw) = strip raw"
proof -
  from assms(3) have "formatted lim fmt_float part = None"
    by (auto simp: formatted_def Let_def filter_empty_conv)
  with assms(2) have "\<not> list_all (\<lambda>p. formatted lim fmt_float p \<noteq> None) (re_split (strip raw))"
    by (auto simp: list_all_iff)
  with assms(1) show ?thesis
    by (simp add: format_price_range_def format_parts_closed Let_def del: not_None_eq)
qed

theorem unparseable_returns_stripped_witness:
  "format_price_range 4300 (\<lambda>x. x) (CStr (ascii '' 100 - TBD '')) = ascii ''100 - TBD'' \<and>
   format_price_range 4300 (\<lambda>x. x) (CStr (ascii ''5 - 1..2'')) = ascii ''5 - 1..2''"
proof -
  have a: "\<not> has_request (strip (ascii '' 100 - TBD ''))"
    by (simp add: text_simps)
  have b: "ascii ''TBD'' \<in> set (re_split (strip (ascii '' 100 - TBD '')))"
    by (simp add: text_simps)
  have c: "(\<forall>c \<in> set (ascii ''TBD''). \<not> is_numeric c) \<or>
      (\<exists>e. format_number 4300 (\<lambda>x. x) (filter is_numeric (ascii ''TBD'')) = Inl e)"
    by (simp add: text_simps)
  have d: "\<not> has_request (strip (ascii ''5 - 1..2''))"
    by (simp add: text_simps)
  have e: "ascii ''1..2'' \<in> set (re_split (strip (ascii ''5 - 1..2'')))"
    by (simp add: text_simps)
  have f: "(\<forall>c \<in> set (ascii ''1..2''). \<not> is_numeric c) \<or>
      (\<exists>e. format_number 4300 (\<lambda>x. x) (filter is_numeric (ascii ''1..2'')) = Inl e)"
    by (simp add: text_simps number_simps)
  show ?thesis
    using unparseable_returns_stripped [OF a b c] unparseable_returns_stripped [OF d e f]
    by (simp add: text_simps)
qed

section \<open>Totality of the formatter\<close>

text \<open>
  C9, as stated: \<open>format_price_range\<close> returns a string on every input, and every
  failure path returns the original input string. The second half fails: on the
  malformed decimal \<open>1.2.3\<close> with a space on either side the conversion raises and the
  text returned is the stripped one.
\<close>

theorem failure_path_not_original_counterexample:
  "formatted 4300 (\<lambda>x. x) (ascii '' 1.2.3 '') = None \<and>
   format_price_range 4300 (\<lambda>x. x) (CStr (ascii '' 1.2.3 '')) = ascii ''1.2.3'' \<and>
   ascii ''1.2.3'' \<noteq> ascii '' 1.2.3 ''"
  by (simp add: format_price_range_def formatted_def text_simps number_simps)

text \<open>
  C9, amended: \<open>format_price_range\<close> is total and raises no error: on every input it
  returns a string, which is the empty string (for \<open>None\<close> and for text that is empty
  once stripped), the request phrase, the formatted pieces joined (when every piece
  converts), or else, on every failure path, the text of the input with its leading and
  trailing whitespace removed; never a partial result. The exception a conversion raises
  is the \<open>Inl\<close> of \<open>format_number\<close>, which the loop turns into that return.
\<close>

theorem format_price_range_cases:
  "format_price_range lim fmt_float raw =
     (if raw = CNone \<or> strip (py_str raw) = [] then []
      else if has_request (strip (py_str raw)) then ascii ''Price on Request''
      else if list_all (\<lambda>p. formatted lim fmt_float p \<noteq> None) (re_split (strip (py_str raw)))
      then join range_sep (map (\<lambda>p. the (formatted lim fmt_float p)) (re_split (strip (py_str raw))))
      else strip (py_str raw))"
  by (simp add: format_price_range_def format_parts_closed Let_def del: not_None_eq)

theorem format_price_range_cases_witness:
  "format_price_range 4300 (\<lambda>x. x) CNone = [] \<and>
   format_price_range 4300 (\<lambda>x. x) (CStr []) = [] \<and>
   format_price_range 4300 (\<lambda>x. x) (CStr (ascii ''TBD'')) = ascii ''TBD'' \<and>
   format_price_range 4300 (\<lambda>x. x) (CStr (ascii ''1.2.3'')) = ascii ''1.2.3''"
  using format_price_range_cases [of 4300 "\<lambda>x. x" CNone]
    format_price_range_cases [of 4300 "\<lambda>x. x" "CStr []"]
    format_price_range_cases [of 4300 "\<lambda>x. x" "CStr (ascii ''TBD'')"]
    format_price_range_cases [of 4300 "\<lambda>x. x" "CStr (ascii ''1.2.3'')"]
  by (simp add: formatted_def text_simps number_simps)

section \<open>Row extraction: how many records\<close>

lemmas row_simps = csv_line_def sheet_line_def dict_get_def Model_def Variant_def Price_Range_def
  py_index_def or_empty_def csv_model_blank_def first_cell_none_def first_cell_truthy_def
  csv_row_ok_def is_str_def format_price_range_def

lemma first_blank_index_le: "first_blank_index blank rs \<le> length rs"
  by (induction rs) auto

lemma first_blank_index_takeWhile:
  "first_blank_index blank rs = length (takeWhile (\<lambda>r. \<not> blank r) rs)"
  by (induction rs) auto


















section \<open>Row extraction: where it stops and what it skips\<close>

lemma csv_rows_stop:
  "\<not> truthy (dict_get row Model CNone) \<Longrightarrow>
   csv_rows lim fmt_float (before @ row # after) acc = csv_rows lim fmt_float before acc"
proof (induction before arbitrary: acc)
  case Nil
  then show ?case by simp
next
  case (Cons b bs)
  then show ?case
    by (simp add: Let_def split: sum.splits)
qed

text \<open>
  C3: in the CSV path the loop stops, without emitting a record, at the first row whose
  Model field is missing or empty after stripping whitespace; a row whose Model field is
  whitespace only ends the extraction and is not emitted. The code tests the field before
  stripping it: a Model field of two spaces is emitted, with an empty model, and the next
  row is read; on a line of two spaces alone, whose Variant is \<open>None\<close>, the loop raises
  \<open>AttributeError\<close>.
\<close>

theorem whitespace_model_csv_emitted:
  "strip (ascii ''  '') = [] \<and>
   csv_rows 4300 (\<lambda>x. x) [csv_line ''  '' ''LS'' ''100'', csv_line ''D-MAX'' ''LS'' ''200''] [] =
     Inr [\<lparr>model = [], variant = ascii ''LS'', priceRange = peso # ascii ''100''\<rparr>,
          \<lparr>model = ascii ''D-MAX'', variant = ascii ''LS'', priceRange = peso # ascii ''200''\<rparr>] \<and>
   csv_rows 4300 (\<lambda>x. x)
     [[Model \<mapsto> CStr (ascii ''  ''), Variant \<mapsto> CNone, Price_Range \<mapsto> CNone]] [] =
     Inl AttributeError"
  by (simp add: row_simps text_simps number_simps)

text \<open>
  C4: in the spreadsheet path, for every row whose first cell is not \<open>None\<close>, a record
  is emitted if and only if the first cell is non-empty after coercion to text and
  stripping; a row whose first cell is whitespace only is skipped. The code tests the
  cell before coercing and stripping it: a first cell of two spaces is emitted, with an
  empty model, and a first cell holding the number zero, whose text is \<open>0\<close>, is not.
\<close>

theorem whitespace_model_sheet_emitted:
  "strip (py_str (CStr (ascii ''  ''))) = [] \<and>
   excel_rows 4300 (\<lambda>x. x) [sheet_line ''  '' ''LS'' ''100''] [] =
     Inr [\<lparr>model = [], variant = ascii ''LS'', priceRange = peso # ascii ''100''\<rparr>] \<and>
   strip (py_str (COther False (ascii ''0''))) = ascii ''0'' \<and>
   excel_rows 4300 (\<lambda>x. x) [[COther False (ascii ''0''), CStr (ascii ''LS''), CStr (ascii ''100'')]] [] = Inr []"
  by (simp add: row_simps text_simps number_simps)

text \<open>
  C5: in the spreadsheet path the second and third cells map to variant and raw price, an
  absent cell (a tuple shorter than three cells, or an empty cell) counts as the empty
  string, and reading it never fails. On a tuple of one or two cells the code raises
  \<open>IndexError\<close>: \<open>row[1]\<close> and \<open>row[2]\<close> are read without a bound check.
\<close>

theorem short_row_raises:
  "excel_rows lim fmt_float ([CStr (ascii ''D-MAX'')] # rows) acc = Inl IndexError \<and>
   excel_rows lim fmt_float ([CStr (ascii ''D-MAX''), CStr (ascii ''LS'')] # rows) acc = Inl IndexError"
  by (simp add: py_index_def ascii_def)

section \<open>A missing file or sheet\<close>

lemma excel_categories_result:
  "excel_categories lim fmt_float wb infos (out, cats) = Inr (out', cats') \<Longrightarrow>
   out' = out @ concat (map (\<lambda>i. case wb (sheet_name i) of
                                   None \<Rightarrow> [Warning_sheet_not_found (sheet_name i)]
                                 | Some rows \<Rightarrow> []) infos) \<and>
   cats' = cats @ concat (map (\<lambda>i. case wb (sheet_name i) of
                                   None \<Rightarrow> []
                                 | Some rows \<Rightarrow>
                                     (case excel_rows lim fmt_float rows [] of
                                        Inl e \<Rightarrow> []
                                      | Inr ms \<Rightarrow> [make_category i ms])) infos) \<and>
   (\<forall>i \<in> set infos. \<forall>rows. wb (sheet_name i) = Some rows \<longrightarrow>
      (\<exists>ms. excel_rows lim fmt_float rows [] = Inr ms))"
proof (induction infos arbitrary: out cats)
  case Nil
  then show ?case by simp
next
  case (Cons i infos)
  show ?case
  proof (cases "wb (sheet_name i)")
    case None
    with Cons.prems have
      "excel_categories lim fmt_float wb infos (out @ [Warning_sheet_not_found (sheet_name i)], cats) =
         Inr (out', cats')"
      by simp
    from Cons.IH [OF this] None show ?thesis
      by simp
  next
    case (Some rows)
    with Cons.prems obtain ms where ms: "excel_rows lim fmt_float rows [] = Inr ms"
      and "excel_categories lim fmt_float wb infos (out, cats @ [make_category i ms]) = Inr (out', cats')"
      by (auto split: sum.splits)
    from Cons.IH [OF this(2)] Some ms show ?thesis
      by simp
  qed
qed

lemma excel_categories_total:
  "\<forall>i \<in> set infos. \<forall>rows. wb (sheet_name i) = Some rows \<longrightarrow>
      (\<exists>ms. excel_rows lim fmt_float rows [] = Inr ms) \<Longrightarrow>
   \<exists>r. excel_categories lim fmt_float wb infos (out, cats) = Inr r"
proof (induction infos arbitrary: out cats)
  case Nil
  then show ?case by simp
next
  case (Cons i infos)
  then have rest: "\<And>out cats. \<exists>r. excel_categories lim fmt_float wb infos (out, cats) = Inr r"
    by simp
  show ?case
  proof (cases "wb (sheet_name i)")
    case None
    with rest show ?thesis by simp
  next
    case (Some rows)
    with Cons.prems obtain ms where "excel_rows lim fmt_float rows [] = Inr ms"
      by auto
    with Some rest show ?thesis by simp
  qed
qed

lemma distinct_cat_id: "distinct (map cat_id CATEGORY_MAPPING)"
  by (simp add: CATEGORY_MAPPING_def ascii_def)

lemma cat_id_inj: "i \<in> set CATEGORY_MAPPING \<Longrightarrow> j \<in> set CATEGORY_MAPPING \<Longrightarrow> cat_id i = cat_id j \<Longrightarrow> i = j"
  using distinct_cat_id by (simp add: distinct_map inj_on_def)

lemma excel_missing_sheet:
  assumes run: "excel_to_json lim fmt_float (Some wb) = Inr w"
    and info: "info \<in> set CATEGORY_MAPPING"
    and missing: "wb (sheet_name info) = None"
  shows "\<exists>cats. vehicles_json w = Some cats \<and>
      (\<forall>c \<in> set cats. ident c \<noteq> cat_id info) \<and>
      Warning_sheet_not_found (sheet_name info) \<in> set (printed w) \<and>
      (\<forall>i \<in> set CATEGORY_MAPPING. \<forall>rows. wb (sheet_name i) = Some rows \<longrightarrow>
         (\<exists>ms. excel_rows lim fmt_float rows [] = Inr ms \<and> make_category i ms \<in> set cats))"
proof -
  from run obtain out cats where
    loop: "excel_categories lim fmt_float wb CATEGORY_MAPPING ([], []) = Inr (out, cats)"
    and w: "w = save_json cats \<lparr>printed = out, vehicles_json = None\<rparr>"
    by (auto simp: excel_to_json_def split: sum.splits)
  note res = excel_categories_result [OF loop]
  have doc: "vehicles_json w = Some cats"
    by (simp add: w save_json_def)
  have ids: "\<forall>c \<in> set cats. ident c \<noteq> cat_id info"
  proof
    fix c assume "c \<in> set cats"
    with res obtain i where i: "i \<in> set CATEGORY_MAPPING"
      and ci: "c \<in> set (case wb (sheet_name i) of
                          None \<Rightarrow> []
                        | Some rows \<Rightarrow>
                            (case excel_rows lim fmt_float rows [] of
                               Inl e \<Rightarrow> []
                             | Inr ms \<Rightarrow> [make_category i ms]))"
      by auto
    from ci obtain rows where rows: "wb (sheet_name i) = Some rows"
      by (cases "wb (sheet_name i)") auto
    with ci obtain ms where c: "c = make_category i ms"
      by (cases "excel_rows lim fmt_float rows []") auto
    from rows missing have "i \<noteq> info" by auto
    with i info have "cat_id i \<noteq> cat_id info"
      by (auto dest: cat_id_inj)
    with c show "ident c \<noteq> cat_id info"
      by (simp add: make_category_def)
  qed
  have warn: "Warning_sheet_not_found (sheet_name info) \<in> set (printed w)"
  proof -
    from res info missing have "Warning_sheet_not_found (sheet_name info) \<in> set out"
      by (force split: option.splits)
    then show ?thesis
      by (simp add: w save_json_def)
  qed
  have others: "\<forall>i \<in> set CATEGORY_MAPPING. \<forall>rows. wb (sheet_name i) = Some rows \<longrightarrow>
         (\<exists>ms. excel_rows lim fmt_float rows [] = Inr ms \<and> make_category i ms \<in> set cats)"
  proof (intro ballI allI impI)
    fix i rows assume i: "i \<in> set CATEGORY_MAPPING" "wb (sheet_name i) = Some rows"
    with res obtain ms where ms: "excel_rows lim fmt_float rows [] = Inr ms"
      by blast
    let ?entry = "\<lambda>i. case wb (sheet_name i) of
                          None \<Rightarrow> []
                        | Some rows \<Rightarrow>
                            (case excel_rows lim fmt_float rows [] of
                               Inl e \<Rightarrow> []
                             | Inr ms \<Rightarrow> [make_category i ms])"
    from i ms have "make_category i ms \<in> set (?entry i)"
      by simp
    with i(1) have "make_category i ms \<in> set (concat (map ?entry CATEGORY_MAPPING))"
      unfolding set_concat set_map by blast
    with res have "make_category i ms \<in> set cats"
      by simp
    with ms show "\<exists>ms. excel_rows lim fmt_float rows [] = Inr ms \<and> make_category i ms \<in> set cats"
      by blast
  qed
  from doc ids warn others show ?thesis
    by blast
qed

lemma csv_categories_result:
  "csv_categories lim fmt_float files infos (out, cats) = Inr (out', cats') \<Longrightarrow>
   out' = out @ concat (map (\<lambda>i. case files (csv_name i) of
                                   None \<Rightarrow> [Warning_file_not_found (csv_name i)]
                                 | Some rows \<Rightarrow> []) infos) \<and>
   cats' = cats @ concat (map (\<lambda>i. case files (csv_name i) of
                                   None \<Rightarrow> []
                                 | Some rows \<Rightarrow>
                                     (case csv_rows lim fmt_float rows [] of
                                        Inl e \<Rightarrow> []
                                      | Inr ms \<Rightarrow> [make_category i ms])) infos) \<and>
   (\<forall>i \<in> set infos. \<forall>rows. files (csv_name i) = Some rows \<longrightarrow>
      (\<exists>ms. csv_rows lim fmt_float rows [] = Inr ms))"
proof (induction infos arbitrary: out cats)
  case Nil
  then show ?case by simp
next
  case (Cons i infos)
  show ?case
  proof (cases "files (csv_name i)")
    case None
    with Cons.prems have
      "csv_categories lim fmt_float files infos (out @ [Warning_file_not_found (csv_name i)], cats) =
         Inr (out', cats')"
      by simp
    from Cons.IH [OF this] None show ?thesis
      by simp
  next
    case (Some rows)
    with Cons.prems obtain ms where ms: "csv_rows lim fmt_float rows [] = Inr ms"
      and "csv_categories lim fmt_float files infos (out, cats @ [make_category i ms]) = Inr (out', cats')"
      by (auto split: sum.splits)
    from Cons.IH [OF this(2)] Some ms show ?thesis
      by simp
  qed
qed

lemma csv_categories_total:
  "\<forall>i \<in> set infos. \<forall>rows. files (csv_name i) = Some rows \<longrightarrow>
      (\<exists>ms. csv_rows lim fmt_float rows [] = Inr ms) \<Longrightarrow>
   \<exists>r. csv_categories lim fmt_float files infos (out, cats) = Inr r"
proof (induction infos arbitrary: out cats)
  case Nil
  then show ?case by simp
next
  case (Cons i infos)
  then have rest: "\<And>out cats. \<exists>r. csv_categories lim fmt_float files infos (out, cats) = Inr r"
    by simp
  show ?case
  proof (cases "files (csv_name i)")
    case None
    with rest show ?thesis by simp
  next
    case (Some rows)
    with Cons.prems obtain ms where "csv_rows lim fmt_float rows [] = Inr ms"
      by auto
    with Some rest show ?thesis by simp
  qed
qed


lemma csv_missing_file:
  assumes run: "csv_to_json lim fmt_float (Some files) = Inr w"
    and info: "info \<in> set CATEGORY_MAPPING"
    and missing: "files (csv_name info) = None"
  shows "\<exists>cats. vehicles_json w = Some cats \<and>
      (\<forall>c \<in> set cats. ident c \<noteq> cat_id info) \<and>
      Warning_file_not_found (csv_name info) \<in> set (printed w) \<and>
      (\<forall>i \<in> set CATEGORY_MAPPING. \<forall>rows. files (csv_name i) = Some rows \<longrightarrow>
         (\<exists>ms. csv_rows lim fmt_float rows [] = Inr ms \<and> make_category i ms \<in> set cats))"
proof -
  from run obtain out cats where
    loop: "csv_categories lim fmt_float files CATEGORY_MAPPING ([], []) = Inr (out, cats)"
    and w: "w = save_json cats \<lparr>printed = out, vehicles_json = None\<rparr>"
    by (auto simp: csv_to_json_def split: sum.splits)
  note res = csv_categories_result [OF loop]
  have doc: "vehicles_json w = Some cats"
    by (simp add: w save_json_def)
  have ids: "\<forall>c \<in> set cats. ident c \<noteq> cat_id info"
  proof
    fix c assume "c \<in> set cats"
    with res obtain i where i: "i \<in> set CATEGORY_MAPPING"
      and ci: "c \<in> set (case files (csv_name i) of
                          None \<Rightarrow> []
                        | Some rows \<Rightarrow>
                            (case csv_rows lim fmt_float rows [] of
                               Inl e \<Rightarrow> []
                             | Inr ms \<Rightarrow> [make_category i ms]))"
      by auto
    from ci obtain rows where rows: "files (csv_name i) = Some rows"
      by (cases "files (csv_name i)") auto
    with ci obtain ms where c: "c = make_category i ms"
      by (cases "csv_rows lim fmt_float rows []") auto
    from rows missing have "i \<noteq> info" by auto
    with i info have "cat_id i \<noteq> cat_id info"
      by (auto dest: cat_id_inj)
    with c show "ident c \<noteq> cat_id info"
      by (simp add: make_category_def)
  qed
  have warn: "Warning_file_not_found (csv_name info) \<in> set (printed w)"
  proof -
    from res info missing have "Warning_file_not_found (csv_name info) \<in> set out"
      by (force split: option.splits)
    then show ?thesis
      by (simp add: w save_json_def)
  qed
  have others: "\<forall>i \<in> set CATEGORY_MAPPING. \<forall>rows. files (csv_name i) = Some rows \<longrightarrow>
         (\<exists>ms. csv_rows lim fmt_float rows [] = Inr ms \<and> make_category i ms \<in> set cats)"
  proof (intro ballI allI impI)
    fix i rows assume i: "i \<in> set CATEGORY_MAPPING" "files (csv_name i) = Some rows"
    with res obtain ms where ms: "csv_rows lim fmt_float rows [] = Inr ms"
      by blast
    let ?entry = "\<lambda>i. case files (csv_name i) of
                          None \<Rightarrow> []
                        | Some rows \<Rightarrow>
                            (case csv_rows lim fmt_float rows [] of
                               Inl e \<Rightarrow> []
                             | Inr ms \<Rightarrow> [make_category i ms])"
    from i ms have "make_category i ms \<in> set (?entry i)"
      by simp
    with i(1) have "make_category i ms \<in> set (concat (map ?entry CATEGORY_MAPPING))"
      unfolding set_concat set_map by blast
    with res have "make_category i ms \<in> set cats"
      by simp
    with ms show "\<exists>ms. csv_rows lim fmt_float rows [] = Inr ms \<and> make_category i ms \<in> set cats"
      by blast
  qed
  from doc ids warn others show ?thesis
    by blast
qed

text \<open>
  C8. When a category's file (CSV path) or sheet (spreadsheet path) is absent, the
  categories written hold no entry with that category's id, the warning naming the
  missing source is printed, and every category whose source is present is still
  processed: its entry, with the records extracted from its rows, is in the document.
  A run returns whenever the extraction of every present source does; an absent source
  never stops it.
\<close>

theorem missing_source_omitted:
  "(excel_to_json lim fmt_float (Some wb) = Inr w \<and> info \<in> set CATEGORY_MAPPING \<and>
    wb (sheet_name info) = None \<longrightarrow>
      (\<exists>cats. vehicles_json w = Some cats \<and>
         (\<forall>c \<in> set cats. ident c \<noteq> cat_id info) \<and>
         Warning_sheet_not_found (sheet_name info) \<in> set (printed w) \<and>
         (\<forall>i \<in> set CATEGORY_MAPPING. \<forall>rows. wb (sheet_name i) = Some rows \<longrightarrow>
            (\<exists>ms. excel_rows lim fmt_float rows [] = Inr ms \<and> make_category i ms \<in> set cats)))) \<and>
   ((\<forall>i \<in> set CATEGORY_MAPPING. \<forall>rows. wb (sheet_name i) = Some rows \<longrightarrow>
       (\<exists>ms. excel_rows lim fmt_float rows [] = Inr ms)) \<longrightarrow>
      (\<exists>w. excel_to_json lim fmt_float (Some wb) = Inr w)) \<and>
   (csv_to_json lim fmt_float (Some files) = Inr w' \<and> info' \<in> set CATEGORY_MAPPING \<and>
    files (csv_name info') = None \<longrightarrow>
      (\<exists>cats. vehicles_json w' = Some cats \<and>
         (\<forall>c \<in> set cats. ident c \<noteq> cat_id info') \<and>
         Warning_file_not_found (csv_name info') \<in> set (printed w') \<and>
         (\<forall>i \<in> set CATEGORY_MAPPING. \<forall>rows. files (csv_name i) = Some rows \<longrightarrow>
            (\<exists>ms. csv_rows lim fmt_float rows [] = Inr ms \<and> make_category i ms \<in> set cats)))) \<and>
   ((\<forall>i \<in> set CATEGORY_MAPPING. \<forall>rows. files (csv_name i) = Some rows \<longrightarrow>
       (\<exists>ms. csv_rows lim fmt_float rows [] = Inr ms)) \<longrightarrow>
      (\<exists>w. csv_to_json lim fmt_float (Some files) = Inr w))"
proof (intro conjI impI)
  assume "excel_to_json lim fmt_float (Some wb) = Inr w \<and> info \<in> set CATEGORY_MAPPING \<and>
    wb (sheet_name info) = None"
  then show "\<exists>cats. vehicles_json w = Some cats \<and>
         (\<forall>c \<in> set cats. ident c \<noteq> cat_id info) \<and>
         Warning_sheet_not_found (sheet_name info) \<in> set (printed w) \<and>
         (\<forall>i \<in> set CATEGORY_MAPPING. \<forall>rows. wb (sheet_name i) = Some rows \<longrightarrow>
            (\<exists>ms. excel_rows lim fmt_float rows [] = Inr ms \<and> make_category i ms \<in> set cats))"
    using excel_missing_sheet [of lim fmt_float wb w info] by blast
next
  assume "\<forall>i \<in> set CATEGORY_MAPPING. \<forall>rows. wb (sheet_name i) = Some rows \<longrightarrow>
       (\<exists>ms. excel_rows lim fmt_float rows [] = Inr ms)"
  from excel_categories_total [OF this, of "[]" "[]"]
  show "\<exists>w. excel_to_json lim fmt_float (Some wb) = Inr w"
    by (auto simp: excel_to_json_def)
next
  assume "csv_to_json lim fmt_float (Some files) = Inr w' \<and> info' \<in> set CATEGORY_MAPPING \<and>
    files (csv_name info') = None"
  then show "\<exists>cats. vehicles_json w' = Some cats \<and>
         (\<forall>c \<in> set cats. ident c \<noteq> cat_id info') \<and>
         Warning_file_not_found (csv_name info') \<in> set (printed w') \<and>
         (\<forall>i \<in> set CATEGORY_MAPPING. \<forall>rows. files (csv_name i) = Some rows \<longrightarrow>
            (\<exists>ms. csv_rows lim fmt_float rows [] = Inr ms \<and> make_category i ms \<in> set cats))"
    using csv_missing_file [of lim fmt_float files w' info'] by blast
next
  assume "\<forall>i \<in> set CATEGORY_MAPPING. \<forall>rows. files (csv_name i) = Some rows \<longrightarrow>
       (\<exists>ms. csv_rows lim fmt_float rows [] = Inr ms)"
  from csv_categories_total [OF this, of "[]" "[]"]
  show "\<exists>w. csv_to_json lim fmt_float (Some files) = Inr w"
    by (auto simp: csv_to_json_def)
qed

lemma example_workbook_run:
  "map_sum id (\<lambda>w. (printed w, map ident (the (vehicles_json w))))
     (excel_to_json 4300 (\<lambda>x. x) (Some example_workbook)) =
   Inr ([Warning_sheet_not_found (ascii ''Light Commercial''), Generated, Total_categories 3,
         Category_models (ascii ''Passenger Vehicles'') 1,
         Category_models (ascii ''Light to Medium Duty Trucks'') 0,
         Category_models (ascii ''Heavy Duty & Special Purpose'') 0],
        [ascii ''passenger'', ascii ''medium-duty'', ascii ''heavy-duty''])"
  by (simp add: excel_to_json_def example_workbook_def CATEGORY_MAPPING_def save_json_def
      make_category_def row_simps text_simps number_simps)

lemma example_templates_run:
  "map_sum id (\<lambda>w. (printed w, map ident (the (vehicles_json w))))
     (csv_to_json 4300 (\<lambda>x. x) (Some example_templates)) =
   Inr ([Warning_file_not_found (ascii ''Light Commercial.csv''), Generated, Total_categories 3,
         Category_models (ascii ''Passenger Vehicles'') 1,
         Category_models (ascii ''Light to Medium Duty Trucks'') 0,
         Category_models (ascii ''Heavy Duty & Special Purpose'') 0],
        [ascii ''passenger'', ascii ''medium-duty'', ascii ''heavy-duty''])"
  by (simp add: csv_to_json_def example_templates_def CATEGORY_MAPPING_def save_json_def
      make_category_def row_simps text_simps number_simps)

theorem missing_source_omitted_witness:
  "map_sum id (\<lambda>w. (printed w, map ident (the (vehicles_json w))))
     (excel_to_json 4300 (\<lambda>x. x) (Some example_workbook)) =
   Inr ([Warning_sheet_not_found (ascii ''Light Commercial''), Generated, Total_categories 3,
         Category_models (ascii ''Passenger Vehicles'') 1,
         Category_models (ascii ''Light to Medium Duty Trucks'') 0,
         Category_models (ascii ''Heavy Duty & Special Purpose'') 0],
        [ascii ''passenger'', ascii ''medium-duty'', ascii ''heavy-duty'']) \<and>
   Warning_sheet_not_found (ascii ''Light Commercial'') \<in>
     set (printed (projr (excel_to_json 4300 (\<lambda>x. x) (Some example_workbook)))) \<and>
   ascii ''light-commercial'' \<notin>
     ident ` set (the (vehicles_json (projr (excel_to_json 4300 (\<lambda>x. x) (Some example_workbook))))) \<and>
   map_sum id (\<lambda>w. (printed w, map ident (the (vehicles_json w))))
     (csv_to_json 4300 (\<lambda>x. x) (Some example_templates)) =
   Inr ([Warning_file_not_found (ascii ''Light Commercial.csv''), Generated, Total_categories 3,
         Category_models (ascii ''Passenger Vehicles'') 1,
         Category_models (ascii ''Light to Medium Duty Trucks'') 0,
         Category_models (ascii ''Heavy Duty & Special Purpose'') 0],
        [ascii ''passenger'', ascii ''medium-duty'', ascii ''heavy-duty'']) \<and>
   Warning_file_not_found (ascii ''Light Commercial.csv'') \<in>
     set (printed (projr (csv_to_json 4300 (\<lambda>x. x) (Some example_templates)))) \<and>
   ascii ''light-commercial'' \<notin>
     ident ` set (the (vehicles_json (projr (csv_to_json 4300 (\<lambda>x. x) (Some example_templates)))))"
proof -
  let ?light = "CATEGORY_MAPPING ! 1"
  let ?xl = "excel_to_json 4300 (\<lambda>x. x) (Some example_workbook)"
  let ?csv = "csv_to_json 4300 (\<lambda>x. x) (Some example_templates)"
  have light: "?light \<in> set CATEGORY_MAPPING"
    by (simp add: CATEGORY_MAPPING_def)
  have names: "sheet_name ?light = ascii ''Light Commercial''"
    "csv_name ?light = ascii ''Light Commercial.csv''" "cat_id ?light = ascii ''light-commercial''"
    by (simp_all add: CATEGORY_MAPPING_def)
  have no_sheet: "example_workbook (sheet_name ?light) = None"
    unfolding names by (simp add: example_workbook_def ascii_def)
  have no_file: "example_templates (csv_name ?light) = None"
    unfolding names by (simp add: example_templates_def ascii_def)
  have xl: "?xl = Inr (projr ?xl)"
    using example_workbook_run by (cases ?xl) simp_all
  have csv: "?csv = Inr (projr ?csv)"
    using example_templates_run by (cases ?csv) simp_all
  from missing_source_omitted [of 4300 "\<lambda>x. x" example_workbook "projr ?xl" ?light
      example_templates "projr ?csv" ?light] xl light no_sheet csv no_file
  have "(\<exists>cats. vehicles_json (projr ?xl) = Some cats \<and>
         (\<forall>c \<in> set cats. ident c \<noteq> cat_id ?light) \<and>
         Warning_sheet_not_found (sheet_name ?light) \<in> set (printed (projr ?xl)))"
    and "(\<exists>cats. vehicles_json (projr ?csv) = Some cats \<and>
         (\<forall>c \<in> set cats. ident c \<noteq> cat_id ?light) \<and>
         Warning_file_not_found (csv_name ?light) \<in> set (printed (projr ?csv)))"
    by blast+
  then show ?thesis
    unfolding names using example_workbook_run example_templates_run by auto
qed

section \<open>Numeric price ranges\<close>

text \<open>The thousands separators: groups of three from the right, and only commas added.\<close>

lemma group3_short: "length ds \<le> 3 \<Longrightarrow> group3 ds = ds"
proof -
  assume "length ds \<le> 3"
  then have "length (rev ds) \<le> 3"
    by simp
  then have "group3_rev (rev ds) = rev ds"
    by (cases "rev ds" rule: group3_rev.cases) simp_all
  then show ?thesis
    by (simp add: group3_def)
qed

lemma group3_snoc3: "ds \<noteq> [] \<Longrightarrow> group3 (ds @ [a, b, c]) = group3 ds @ [comma, a, b, c]"
proof -
  assume "ds \<noteq> []"
  then obtain x xs where "rev ds = x # xs"
    by (cases "rev ds") auto
  then show ?thesis
    by (simp add: group3_def)
qed

lemma group3_rev_digits: "filter (\<lambda>c. c \<noteq> comma) (group3_rev ds) = filter (\<lambda>c. c \<noteq> comma) ds"
  by (induction ds rule: group3_rev.induct) simp_all

lemma group3_digits: "filter (\<lambda>c. c \<noteq> comma) (group3 ds) = filter (\<lambda>c. c \<noteq> comma) ds"
  by (simp add: group3_def group3_rev_digits rev_filter [symmetric])

lemma decimal_digits: "list_all is_digit (decimal n)"
proof (induction n rule: decimal.induct)
  case (1 n)
  show ?case
  proof (cases "n < 10")
    case True
    then show ?thesis
      by (subst decimal.simps) (simp add: is_digit_def)
  next
    case False
    with "1" have "list_all is_digit (decimal (n div 10))"
      by simp
    moreover have "is_digit (48 + n mod 10)"
      by (simp add: is_digit_def)
    ultimately show ?thesis
      using False by (subst decimal.simps) simp
  qed
qed

lemma int_of_digits_snoc: "int_of_digits (ds @ [c]) = 10 * int_of_digits ds + digit_val c"
  by (simp add: int_of_digits_def)

lemma int_of_digits_decimal: "int_of_digits (decimal n) = n"
proof (induction n rule: decimal.induct)
  case (1 n)
  show ?case
  proof (cases "n < 10")
    case True
    then show ?thesis
      by (subst decimal.simps) (simp add: int_of_digits_def digit_val_def)
  next
    case False
    with "1" have "int_of_digits (decimal (n div 10)) = n div 10"
      by simp
    with False show ?thesis
      by (subst decimal.simps) (simp add: int_of_digits_snoc digit_val_def)
  qed
qed

lemma format_int_digits: "filter (\<lambda>c. c \<noteq> comma) (format_int n) = decimal n"
proof -
  have "\<forall>c \<in> set (decimal n). c \<noteq> comma"
    using decimal_digits [of n] by (auto simp: list_all_iff is_digit_def comma_def)
  then show ?thesis
    by (simp add: format_int_def group3_digits filter_id_conv)
qed

text \<open>
  The format of the code is the grouping the specification describes.
\<close>

lemma decimal_nonempty: "decimal n \<noteq> []"
  by (subst decimal.simps) simp

lemma decimal_digit: "n < 10 \<Longrightarrow> decimal n = [48 + n]"
  by (subst decimal.simps) simp

lemma decimal_step: "10 \<le> n \<Longrightarrow> decimal n = decimal (n div 10) @ [48 + n mod 10]"
  by (subst decimal.simps) simp

lemma decimal_small:
  assumes "n < 1000"
  shows "length (decimal n) \<le> 3"
proof -
  consider "n < 10" | "10 \<le> n" "n < 100" | "100 \<le> n"
    by linarith
  then show ?thesis
  proof cases
    case 1
    then show ?thesis
      by (simp add: decimal_digit)
  next
    case 2
    then have "n div 10 < 10"
      by simp
    with 2 show ?thesis
      by (simp add: decimal_step decimal_digit)
  next
    case 3
    with assms have "10 \<le> n" "10 \<le> n div 10" "n div 10 div 10 < 10"
      by simp_all
    then show ?thesis
      by (simp add: decimal_step decimal_digit)
  qed
qed

lemma decimal_last3:
  assumes "1000 \<le> n"
  shows "decimal n = decimal (n div 1000) @ [48 + n div 100 mod 10, 48 + n div 10 mod 10, 48 + n mod 10]"
proof -
  from assms have a: "10 \<le> n" and b: "10 \<le> n div 10" and c: "10 \<le> n div 10 div 10"
    by simp_all
  have d: "n div 10 div 10 = n div 100" "n div 100 div 10 = n div 1000"
    by (simp_all add: div_mult2_eq [symmetric])
  have "decimal n = decimal (n div 10) @ [48 + n mod 10]"
    using a by (rule decimal_step)
  also have "decimal (n div 10) = decimal (n div 10 div 10) @ [48 + n div 10 mod 10]"
    using b by (rule decimal_step)
  also have "decimal (n div 10 div 10) = decimal (n div 10 div 10 div 10) @ [48 + n div 10 div 10 mod 10]"
    using c by (rule decimal_step)
  finally have "decimal n =
      (decimal (n div 10 div 10 div 10) @ [48 + n div 10 div 10 mod 10]) @
      [48 + n div 10 mod 10] @ [48 + n mod 10]"
    by simp
  then show ?thesis
    by (simp only: d append_assoc append_Cons append_Nil)
qed

lemma format_int_thousands: "format_int n = thousands n"
proof (induction n rule: thousands.induct)
  case (1 n)
  show ?case
  proof (cases "n < 1000")
    case True
    then show ?thesis
      by (subst thousands.simps) (simp add: format_int_def group3_short decimal_small)
  next
    case False
    with "1" have IH: "group3 (decimal (n div 1000)) = thousands (n div 1000)"
      by (simp add: format_int_def)
    from False have "decimal n =
        decimal (n div 1000) @ [48 + n div 100 mod 10, 48 + n div 10 mod 10, 48 + n mod 10]"
      by (simp add: decimal_last3)
    then have "group3 (decimal n) = group3 (decimal (n div 1000)) @
        [comma, 48 + n div 100 mod 10, 48 + n div 10 mod 10, 48 + n mod 10]"
      by (simp only: group3_snoc3 [OF decimal_nonempty])
    with False IH show ?thesis
      by (subst thousands.simps) (simp add: format_int_def)
  qed
qed

text \<open>Splitting a range built from segments and separators gives back the segments.\<close>

lemma digit_classes: "is_digit c \<Longrightarrow> \<not> is_space c \<and> \<not> is_dash c \<and> is_numeric c \<and> c \<noteq> dot"
  by (auto simp: is_digit_def is_space_def is_dash_def is_numeric_def dot_def en_dash_def hyphen_def)

lemma dash_not_space: "is_dash c \<Longrightarrow> \<not> is_space c"
  by (auto simp: is_dash_def is_space_def en_dash_def hyphen_def)

lemma segment_plain:
  "segment_ok seg \<Longrightarrow> list_all (\<lambda>c. \<not> is_space c \<and> \<not> is_dash c) (segment_text seg)"
  by (auto simp: segment_ok_def segment_text_def list_all_iff currency_char_def digit_classes)

lemma segment_nonempty: "segment_ok seg \<Longrightarrow> segment_text seg \<noteq> []"
  by (simp add: segment_ok_def segment_text_def)

lemma segment_last: "segment_ok seg \<Longrightarrow> is_digit (last (segment_text seg))"
  by (simp add: segment_ok_def segment_text_def list_all_iff)

lemma segment_numeric: "segment_ok seg \<Longrightarrow> filter is_numeric (segment_text seg) = snd seg"
proof -
  assume ok: "segment_ok seg"
  then have "filter is_numeric (fst seg) = []"
    by (auto simp: segment_ok_def list_all_iff currency_char_def filter_empty_conv)
  moreover from ok have "filter is_numeric (snd seg) = snd seg"
    by (auto simp: segment_ok_def list_all_iff digit_classes filter_id_conv)
  ultimately show ?thesis
    by (simp add: segment_text_def)
qed

lemma re_split_plain:
  "\<not> is_space c \<Longrightarrow> \<not> is_dash c \<Longrightarrow> re_split_from acc (c # cs) = re_split_from (c # acc) cs"
  by simp

lemma re_split_plain_run:
  "list_all (\<lambda>c. \<not> is_space c \<and> \<not> is_dash c) xs \<Longrightarrow>
   re_split_from acc (xs @ rest) = re_split_from (rev xs @ acc) rest"
proof (induction xs arbitrary: acc)
  case Nil
  then show ?case by simp
next
  case (Cons x xs)
  then have "re_split_from acc ((x # xs) @ rest) = re_split_from (x # acc) (xs @ rest)"
    by (simp del: re_split_from.simps add: re_split_plain)
  also from Cons have "\<dots> = re_split_from (rev xs @ x # acc) rest"
    by (simp del: re_split_from.simps)
  finally show ?case
    by (simp del: re_split_from.simps)
qed

lemma re_split_separator:
  assumes "separator_ok sep" and "rest \<noteq> []" and "\<not> is_space (hd rest)"
  shows "re_split_from acc (separator_text sep @ rest) = rev acc # re_split_from [] rest"
proof -
  obtain w1 d w2 where sep: "sep = (w1, d, w2)"
    by (cases sep) auto
  from assms(1) have w1: "\<forall>c \<in> set w1. is_space c" and d: "is_dash d" and w2: "\<forall>c \<in> set w2. is_space c"
    by (auto simp: sep separator_ok_def list_all_iff)
  from assms(2,3) have rest: "dropWhile is_space rest = rest"
    by (cases rest) auto
  from w2 have after: "dropWhile is_space (w2 @ rest) = rest"
    by (simp add: dropWhile_append2 rest)
  from w1 d have lead: "dropWhile is_space (w1 @ d # w2 @ rest) = d # w2 @ rest"
    by (simp add: dropWhile_append2 dash_not_space)
  have "w1 @ d # w2 @ rest \<noteq> []"
    by simp
  then obtain c cs where cs: "w1 @ d # w2 @ rest = c # cs"
    by (cases "w1 @ d # w2 @ rest") auto
  from lead cs have scan: "dropWhile is_space (c # cs) = d # w2 @ rest"
    by simp
  have "re_split_from acc (c # cs) = rev acc # re_split_from [] rest"
    by (subst re_split_from.simps) (simp only: scan list.case d if_True after)
  then show ?thesis
    by (simp add: sep separator_text_def cs)
qed

lemma parts_ok_Cons:
  "parts_ok seg ((sep, seg') # others) \<longleftrightarrow> segment_ok seg \<and> separator_ok sep \<and> parts_ok seg' others"
  by (auto simp: parts_ok_def)

lemma price_text_shape:
  "parts_ok seg others \<Longrightarrow>
   price_text seg others \<noteq> [] \<and> \<not> is_space (hd (price_text seg others)) \<and>
   \<not> is_space (last (price_text seg others))"
proof (induction others arbitrary: seg)
  case Nil
  then have ok: "segment_ok seg"
    by (simp add: parts_ok_def)
  from segment_plain [OF ok] segment_nonempty [OF ok] segment_last [OF ok] show ?case
    by (cases "segment_text seg") (auto simp: digit_classes)
next
  case (Cons p others)
  obtain sep seg' where p: "p = (sep, seg')"
    by (cases p) auto
  from Cons.prems have ok: "segment_ok seg" and rest: "parts_ok seg' others"
    by (simp_all add: p parts_ok_Cons)
  from Cons.IH [OF rest] segment_plain [OF ok] segment_nonempty [OF ok] show ?case
    by (cases "segment_text seg") (auto simp: p)
qed

lemma strip_trimmed:
  assumes "s \<noteq> []" and "\<not> is_space (hd s)" and "\<not> is_space (last s)"
  shows "strip s = s"
proof -
  from assms(1,2) have front: "dropWhile is_space s = s"
    by (cases s) auto
  from assms(1,3) have "dropWhile is_space (rev s) = rev s"
    by (cases "rev s") (auto simp: last_rev [symmetric] simp del: last_rev)
  with front show ?thesis
    by (simp add: strip_def)
qed

lemma re_split_price_text:
  "parts_ok seg others \<Longrightarrow>
   re_split_from acc (price_text seg others) =
     (rev acc @ segment_text seg) # map (\<lambda>p. segment_text (snd p)) others"
proof (induction others arbitrary: seg acc)
  case Nil
  then have ok: "segment_ok seg"
    by (simp add: parts_ok_def)
  from re_split_plain_run [OF segment_plain [OF ok], of acc "[]"] show ?case
    by simp
next
  case (Cons p others)
  obtain sep seg' where p: "p = (sep, seg')"
    by (cases p) auto
  from Cons.prems have ok: "segment_ok seg" and sep: "separator_ok sep" and rest: "parts_ok seg' others"
    by (simp_all add: p parts_ok_Cons)
  from price_text_shape [OF rest] have shape: "price_text seg' others \<noteq> []"
    "\<not> is_space (hd (price_text seg' others))"
    by simp_all
  have "re_split_from acc (price_text seg (p # others)) =
      re_split_from (rev (segment_text seg) @ acc) (separator_text sep @ price_text seg' others)"
    unfolding p price_text.simps by (rule re_split_plain_run [OF segment_plain [OF ok]])
  also have "\<dots> = rev (rev (segment_text seg) @ acc) # re_split_from [] (price_text seg' others)"
    by (rule re_split_separator [OF sep shape])
  also have "\<dots> = (rev acc @ segment_text seg) # map (\<lambda>p. segment_text (snd p)) (p # others)"
    by (simp add: Cons.IH [OF rest] p del: re_split_from.simps)
  finally show ?case .
qed

lemma formatted_segment:
  assumes "segment_ok seg" and "within_limit lim seg"
  shows "formatted lim fmt_float (segment_text seg) = Some (peso_amount seg)"
proof -
  from assms(1) have digits: "snd seg \<noteq> []" "dot \<notin> set (snd seg)"
    using digit_classes [of dot] by (auto simp: segment_ok_def list_all_iff)
  from assms(2) have "py_int lim (snd seg) = Inr (int_of_digits (snd seg))"
    by (auto simp: within_limit_def py_int_def)
  with digits show ?thesis
    by (simp add: formatted_def segment_numeric [OF assms(1)] format_number_def peso_amount_def
        format_int_thousands)
qed

text \<open>
  C6, amended: for every numeric price-range string made of dash-separated segments of
  digits with optional currency prefixes, in which no prefix spells \<open>request\<close> and no
  run of digits is longer than the interpreter's limit on the digits of an integer
  conversion (\<open>lim\<close>: 4300 by default in CPython, 0 for none), \<open>format_price_range\<close>
  formats each segment as one peso sign followed by the integer with commas between groups
  of three digits (\<open>peso_amount\<close>), and joins the segments with space, en dash, space in
  their order. The two examples of the specification follow.
\<close>

theorem numeric_range_formatted:
  assumes "parts_ok seg others"
    and "\<not> has_request (price_text seg others)"
    and "list_all (within_limit lim) (seg # map snd others)"
  shows "format_price_range lim fmt_float (CStr (price_text seg others)) =
     join range_sep (map peso_amount (seg # map snd others))"
proof -
  define s where "s = price_text seg others"
  define gs where "gs = seg # map snd others"
  from price_text_shape [OF assms(1)] have s: "strip s = s" "s \<noteq> []"
    by (simp_all add: strip_trimmed s_def)
  have parts: "re_split s = map segment_text gs"
    unfolding re_split_def s_def gs_def re_split_price_text [OF assms(1)] by (simp add: comp_def)
  from assms(1) have "\<forall>g \<in> set gs. segment_ok g"
    by (auto simp: parts_ok_def list_all_iff gs_def)
  moreover from assms(3) have "\<forall>g \<in> set gs. within_limit lim g"
    by (simp add: list_all_iff gs_def)
  ultimately have each:
    "\<forall>g \<in> set gs. formatted lim fmt_float (segment_text g) = Some (peso_amount g)"
    by (simp add: formatted_segment)
  then have all: "list_all (\<lambda>p. formatted lim fmt_float p \<noteq> None) (re_split s)"
    unfolding parts by (simp add: list_all_iff)
  from each have "map (\<lambda>p. the (formatted lim fmt_float p)) (re_split s) = map peso_amount gs"
    unfolding parts by simp
  with all s assms(2) have "format_price_range lim fmt_float (CStr s) = join range_sep (map peso_amount gs)"
    by (simp add: format_price_range_def format_parts_closed s_def [symmetric] del: not_None_eq)
  then show ?thesis
    by (simp only: s_def gs_def)
qed

theorem numeric_range_formatted_witness:
  "format_price_range 4300 (\<lambda>x. x) (CStr (ascii ''P1070000 - P1140000'')) =
     peso # ascii ''1,070,000'' @ [32, en_dash, 32] @ peso # ascii ''1,140,000'' \<and>
   format_price_range 4300 (\<lambda>x. x) (CStr (ascii ''1070000-1140000'')) =
     peso # ascii ''1,070,000'' @ [32, en_dash, 32] @ peso # ascii ''1,140,000''"
proof -
  let ?a = "(ascii ''P'', ascii ''1070000'')"
  let ?b = "[(([32], hyphen, [32]), (ascii ''P'', ascii ''1140000''))]"
  let ?c = "([], ascii ''1070000'')"
  let ?d = "[(([], hyphen, []), ([], ascii ''1140000''))]"
  have spaced: "price_text ?a ?b = ascii ''P1070000 - P1140000''"
    by (simp add: segment_text_def separator_text_def ascii_def hyphen_def)
  have tight: "price_text ?c ?d = ascii ''1070000-1140000''"
    by (simp add: segment_text_def separator_text_def ascii_def hyphen_def)
  have ok: "parts_ok ?a ?b" "parts_ok ?c ?d"
    by (simp_all add: parts_ok_def segment_ok_def separator_ok_def currency_char_def text_simps)
  have no_request: "\<not> has_request (price_text ?a ?b)" "\<not> has_request (price_text ?c ?d)"
    unfolding spaced tight by (simp_all add: text_simps)
  have limit: "list_all (within_limit 4300) (?a # map snd ?b)" "list_all (within_limit 4300) (?c # map snd ?d)"
    by (simp_all add: within_limit_def ascii_def)
  have amounts: "join range_sep (map peso_amount (?a # map snd ?b)) =
      peso # ascii ''1,070,000'' @ [32, en_dash, 32] @ peso # ascii ''1,140,000''"
    "join range_sep (map peso_amount (?c # map snd ?d)) =
      peso # ascii ''1,070,000'' @ [32, en_dash, 32] @ peso # ascii ''1,140,000''"
    by (simp_all add: peso_amount_def thousands.simps number_simps ascii_def en_dash_def)
  from numeric_range_formatted [OF ok(1) no_request(1) limit(1), of "\<lambda>x. x"]
    numeric_range_formatted [OF ok(2) no_request(2) limit(2), of "\<lambda>x. x"]
  show ?thesis
    unfolding spaced tight amounts by simp
qed

text \<open>
  Beyond the limit \<open>int(num_raw)\<close> raises \<open>ValueError\<close>, and the formatter returns the
  digits as they came.
\<close>

lemma digits_no_request:
  assumes "list_all is_digit ds"
  shows "\<not> has_request ds"
proof
  assume "has_request ds"
  then have "set (ascii ''request'') \<subseteq> set (lower ds)"
    unfolding has_request_def by (rule set_mono_sublist)
  then have "114 \<in> set (lower ds)"
    by (simp add: ascii_def)
  then obtain c where "c \<in> set ds" "lower_cp c = 114"
    by (auto simp: lower_def)
  with assms show False
    by (auto simp: list_all_iff is_digit_def lower_cp_def split: if_splits)
qed

lemma over_limit_passthrough:
  assumes "ds \<noteq> []" and "list_all is_digit ds" and "lim \<noteq> 0" and "lim < length ds"
  shows "format_price_range lim fmt_float (CStr ds) = ds"
proof -
  have seg: "segment_ok ([], ds)"
    using assms(1,2) by (simp add: segment_ok_def)
  then have ok: "parts_ok ([], ds) []"
    by (simp add: parts_ok_def)
  have whole: "price_text ([], ds) [] = ds"
    by (simp add: segment_text_def)
  from price_text_shape [OF ok] have s: "strip ds = ds"
    unfolding whole by (simp add: strip_trimmed)
  from re_split_price_text [OF ok, of "[]"] have parts: "re_split ds = [ds]"
    unfolding whole by (simp add: re_split_def segment_text_def)
  from segment_numeric [OF seg] have num: "filter is_numeric ds = ds"
    by (simp add: segment_text_def)
  from assms(2) have "dot \<notin> set ds"
    using digit_classes [of dot] by (auto simp: list_all_iff)
  with assms(3,4) have "format_number lim fmt_float ds = Inl ValueError"
    by (simp add: format_number_def py_int_def)
  with assms(1) have "formatted lim fmt_float ds = None"
    by (simp add: formatted_def num)
  with s assms(1) digits_no_request [OF assms(2)] show ?thesis
    by (simp add: format_price_range_def format_parts_closed parts)
qed

text \<open>
  C6, as stated: every numeric price-range string is formatted. With the limit CPython
  sets by default, a segment of 4301 digits (here 4301 times the digit 1, code point 49)
  is returned as it came, without peso sign or commas.
\<close>

theorem over_limit_counterexample:
  "parts_ok ([], replicate 4301 49) [] \<and>
   price_text ([], replicate 4301 49) [] = replicate 4301 49 \<and>
   format_price_range 4300 (\<lambda>x. x) (CStr (replicate 4301 49)) = replicate 4301 49 \<and>
   replicate 4301 49 \<noteq> join range_sep (map peso_amount [([], replicate 4301 49)])"
proof -
  have digits: "list_all is_digit (replicate 4301 49)"
    by (simp add: list_all_iff is_digit_def)
  have nonempty: "replicate 4301 (49 :: nat) \<noteq> []"
    by simp
  have ok: "parts_ok ([], replicate 4301 49) []"
    using digits by (simp add: parts_ok_def segment_ok_def)
  have whole: "price_text ([], replicate 4301 49) [] = replicate 4301 49"
    by (simp add: segment_text_def)
  have same: "format_price_range 4300 (\<lambda>x. x) (CStr (replicate 4301 49)) = replicate 4301 49"
    by (rule over_limit_passthrough [OF nonempty digits]) simp_all
  have "hd (replicate 4301 (49 :: nat)) = 49"
    by (simp add: hd_replicate)
  moreover have "hd (join range_sep (map peso_amount [([], replicate 4301 49)])) = peso"
    by (simp add: peso_amount_def)
  ultimately have differ: "replicate 4301 49 \<noteq> join range_sep (map peso_amount [([], replicate 4301 49)])"
    by (auto simp: peso_def)
  from ok whole same differ show ?thesis
    by blast
qed

end
